theory Spec2Isabelle
  imports Main "HOL-Library.Sublist"
begin

section \<open>Strings as the Python code uses them\<close>

text \<open>
  Python strings are modelled as \<^typ>\<open>string\<close>, read as ASCII text: \<open>str.lower\<close>
  maps \<open>A\<close>..\<open>Z\<close> to \<open>a\<close>..\<open>z\<close> and leaves every other character alone, and
  \<open>str.strip\<close> removes the ASCII whitespace characters (codes 9 to 13, 28 to 31
  and 32) from both ends. Every keyword of the program is ASCII.
\<close>

definition lower_char :: "char \<Rightarrow> char" where
  "lower_char c =
     (case map_of (zip ''ABCDEFGHIJKLMNOPQRSTUVWXYZ'' ''abcdefghijklmnopqrstuvwxyz'') c of
        None \<Rightarrow> c
      | Some d \<Rightarrow> d)"

definition lower :: "string \<Rightarrow> string" where
  "lower s = map lower_char s"

definition is_space :: "char \<Rightarrow> bool" where
  "is_space c =
     (let n = (of_char c :: nat)
      in (9 \<le> n \<and> n \<le> 13) \<or> (28 \<le> n \<and> n \<le> 32))"

definition strip :: "string \<Rightarrow> string" where
  "strip s = rev (dropWhile is_space (rev (dropWhile is_space s)))"

text \<open>\<open>kw in s\<close>: substring containment.\<close>

fun py_in :: "string \<Rightarrow> string \<Rightarrow> bool" where
  "py_in kw [] = (kw = [])"
| "py_in kw (c # cs) = (prefix kw (c # cs) \<or> py_in kw cs)"

text \<open>
  \<open>s.split(sep, 1)\<close> for a non-empty separator: the text before and after the first
  occurrence of \<open>sep\<close>, or \<open>s\<close> alone when \<open>sep\<close> does not occur.
\<close>

fun find_first :: "string \<Rightarrow> string \<Rightarrow> (string \<times> string) option" where
  "find_first sep [] = (if sep = [] then Some ([], []) else None)"
| "find_first sep (c # cs) =
     (if prefix sep (c # cs) then Some ([], drop (length sep) (c # cs))
      else (case find_first sep cs of
              None \<Rightarrow> None
            | Some (pre, post) \<Rightarrow> Some (c # pre, post)))"

definition split_once :: "string \<Rightarrow> string \<Rightarrow> string list" where
  "split_once sep s =
     (case find_first sep s of None \<Rightarrow> [s] | Some (pre, post) \<Rightarrow> [pre, post])"

text \<open>\<open>any(keyword in text for keyword in keywords)\<close>\<close>

definition any_in :: "string list \<Rightarrow> string \<Rightarrow> bool" where
  "any_in keywords text = list_ex (\<lambda>keyword. py_in keyword text) keywords"

section \<open>Errors\<close>

datatype error =
    AttributeError
  | IndexError
  | TypeError
  | KeyError
  | BlockedPromptException
  | RetriesExhausted
  | NoInput

section \<open>agents/action_agent.py\<close>

text \<open>
  An action dictionary maps the keys \<open>action\<close>, \<open>query\<close>, \<open>data\<close> and \<open>details\<close>
  to strings; \<open>dict.get\<close> is the lookup, \<open>None\<close> for a missing key.
\<close>

type_synonym action_data = "string \<rightharpoonup> string"

text \<open>Python's \<open>a or b\<close> on optional strings: \<open>None\<close> and the empty string are falsy.\<close>

definition truthy :: "string option \<Rightarrow> bool" where
  "truthy v = (case v of None \<Rightarrow> False | Some s \<Rightarrow> s \<noteq> [])"

definition py_or :: "string option \<Rightarrow> string option \<Rightarrow> string option" where
  "py_or a b = (if truthy a then a else b)"

definition show_opt :: "string option \<Rightarrow> string" where
  "show_opt v = (case v of None \<Rightarrow> ''None'' | Some s \<Rightarrow> s)"

definition web_search_keywords :: "string list" where
  "web_search_keywords =
     [''illegal drugs'', ''violent acts'', ''child exploitation'', ''harmful chemicals'']"

definition save_data_keywords :: "string list" where
  "save_data_keywords = [''credit card numbers'', ''ssn'', ''passwords of others'']"

definition schedule_meeting_keywords :: "string list" where
  "schedule_meeting_keywords = [''bomb threat'', ''illegal gathering'']"

definition known_actions :: "string list" where
  "known_actions = [''none'', ''web_search'', ''save_data'', ''schedule_meeting'']"

text \<open>
  \<open>details and any(keyword in details.lower() ...)\<close>: the guard keeps \<open>.lower()\<close>
  away from \<open>None\<close>.
\<close>

definition guarded_any :: "string option \<Rightarrow> string list \<Rightarrow> bool" where
  "guarded_any details keywords =
     (case details of
        None \<Rightarrow> False
      | Some d \<Rightarrow> d \<noteq> [] \<and> any_in keywords (lower d))"

text \<open>The last check of \<open>validate_action\<close>, reached by every path that has not returned.\<close>

definition check_known :: "string option \<Rightarrow> error + (bool \<times> string)" where
  "check_known action_type =
     (if (case action_type of None \<Rightarrow> True | Some t \<Rightarrow> t \<notin> set known_actions)
      then Inr (False, ''Unsupported or unauthorized action: '' @ [CHR 0x27]
                         @ show_opt action_type @ [CHR 0x27] @ ''.'')
      else Inr (True, ''Action is valid.''))"

text \<open>
  \<open>validate_action\<close>. In the \<open>web_search\<close> branch the second test calls
  \<open>details.lower()\<close> with no guard, so \<open>details = None\<close> raises AttributeError there.
  The log lines written by \<open>_log_blocked_action\<close> are not modelled.
\<close>

definition validate_action :: "action_data \<Rightarrow> error + (bool \<times> string)" where
  "validate_action action_data =
     (let action_type = action_data ''action'';
          details = py_or (py_or (action_data ''query'') (action_data ''data''))
                          (action_data ''details'')
      in if action_type = Some ''web_search'' then
           (if guarded_any details web_search_keywords
            then Inr (False, ''Cannot perform web search for harmful or illegal content.'')
            else (case details of
                    None \<Rightarrow> Inl AttributeError
                  | Some d \<Rightarrow>
                      if py_in ''delete'' (lower d) \<or> py_in ''format'' (lower d)
                      then Inr (False,
                        ''Cannot perform web search for potentially destructive actions.'')
                      else check_known action_type))
         else if action_type = Some ''save_data'' then
           (if guarded_any details save_data_keywords
            then Inr (False, ''Cannot save highly sensitive personal information.'')
            else check_known action_type)
         else if action_type = Some ''schedule_meeting'' then
           (if guarded_any details schedule_meeting_keywords
            then Inr (False, ''Cannot schedule meetings related to illegal activities.'')
            else check_known action_type)
         else check_known action_type)"

text \<open>
  \<open>determine_action\<close>. The query is cut out of the lower-cased summary;
  \<open>split(...)[1]\<close> raises IndexError when the split has one part only.
\<close>

definition marker :: string where
  "marker = ''search the web for''"

definition determine_action :: "string \<Rightarrow> error + action_data" where
  "determine_action context_summary =
     (if py_in marker (lower context_summary) then
        (case split_once marker (lower context_summary) of
           [_, post] \<Rightarrow> Inr [''action'' \<mapsto> ''web_search'', ''query'' \<mapsto> strip post]
         | _ \<Rightarrow> Inl IndexError)
      else if py_in ''save this information'' (lower context_summary) then
        Inr [''action'' \<mapsto> ''save_data'', ''data'' \<mapsto> context_summary]
      else if py_in ''schedule'' (lower context_summary)
              \<and> py_in ''meeting'' (lower context_summary) then
        Inr [''action'' \<mapsto> ''schedule_meeting'', ''details'' \<mapsto> context_summary]
      else Inr [''action'' \<mapsto> ''none''])"

text \<open>
  \<open>execute_action\<close> is modelled with the state it touches, after the state is
  declared below.
\<close>

section \<open>JSON values and history entries\<close>

datatype json =
    JNull
  | JBool bool
  | JNum int
  | JStr string
  | JList "json list"
  | JObj "(string \<times> json) list"

text \<open>
  A history entry is a dictionary that has the keys \<open>role\<close> and \<open>content\<close>:
  \<open>add_message\<close> builds exactly these two, and \<open>_load_history\<close> accepts a stored
  dictionary only when both are present. Further keys of a stored dictionary are
  carried along untouched.
\<close>

record entry =
  role :: json
  content :: json
  others :: "(string \<times> json) list"

definition entry_of_dict :: "(string \<times> json) list \<Rightarrow> entry option" where
  "entry_of_dict kv =
     (case (map_of kv ''role'', map_of kv ''content'') of
        (Some r, Some c) \<Rightarrow>
          Some \<lparr>role = r, content = c,
                others = filter (\<lambda>(k, v). k \<noteq> ''role'' \<and> k \<noteq> ''content'') kv\<rparr>
      | _ \<Rightarrow> None)"

definition dict_of_entry :: "entry \<Rightarrow> json" where
  "dict_of_entry e = JObj ((''role'', role e) # (''content'', content e) # others e)"

text \<open>
  \<open>isinstance(item, dict) and 'role' in item and 'content' in item\<close>, giving the
  entry when the test holds.
\<close>

definition entry_of_json :: "json \<Rightarrow> entry option" where
  "entry_of_json item = (case item of JObj kv \<Rightarrow> entry_of_dict kv | _ \<Rightarrow> None)"

section \<open>core/context_manager.py\<close>

text \<open>
  What the history file is when it is opened: absent, unreadable (the read or
  \<open>json.load\<close> raises), or holding a JSON value.
\<close>

datatype file_state = Absent | Unreadable | Holds json

record context_manager =
  max_history_turns :: int
  conversation_history :: "entry list"
  history_file :: file_state
  disk_writable :: bool

definition load_history :: "file_state \<Rightarrow> entry list" where
  "load_history file =
     (case file of
        Absent \<Rightarrow> []
      | Unreadable \<Rightarrow> []
      | Holds history \<Rightarrow>
          (case history of
             JList items \<Rightarrow>
               if list_all (\<lambda>item. entry_of_json item \<noteq> None) items
               then List.map_filter entry_of_json items
               else []
           | _ \<Rightarrow> []))"

definition init_context_manager :: "file_state \<Rightarrow> bool \<Rightarrow> int \<Rightarrow> context_manager" where
  "init_context_manager file writable n =
     \<lparr>max_history_turns = n, conversation_history = load_history file,
      history_file = file, disk_writable = writable\<rparr>"

text \<open>
  \<open>_save_history\<close>: a failed write is caught and logged, the history in memory is
  the same either way.
\<close>

definition save_history :: "'a context_manager_scheme \<Rightarrow> 'a context_manager_scheme" where
  "save_history cm =
     (if disk_writable cm
      then cm\<lparr>history_file := Holds (JList (map dict_of_entry (conversation_history cm)))\<rparr>
      else cm)"

text \<open>
  The slice \<open>xs[start:]\<close>: a negative start counts from the end and is clamped to
  the beginning of the list; \<open>-0\<close> is \<open>0\<close>.
\<close>

definition slice_from :: "int \<Rightarrow> 'a list \<Rightarrow> 'a list" where
  "slice_from start xs =
     (if start < 0 then drop (nat (int (length xs) + start)) xs else drop (nat start) xs)"

definition add_message ::
  "string \<Rightarrow> json \<Rightarrow> 'a context_manager_scheme \<Rightarrow> 'a context_manager_scheme" where
  "add_message r c cm =
     (let appended = conversation_history cm @ [\<lparr>role = JStr r, content = c, others = []\<rparr>];
          kept = (if int (length appended) > max_history_turns cm
                  then slice_from (- max_history_turns cm) appended
                  else appended)
      in save_history (cm\<lparr>conversation_history := kept\<rparr>))"

definition get_full_history :: "'a context_manager_scheme \<Rightarrow> entry list" where
  "get_full_history cm = conversation_history cm"

definition clear_history :: "'a context_manager_scheme \<Rightarrow> 'a context_manager_scheme" where
  "clear_history cm = save_history (cm\<lparr>conversation_history := []\<rparr>)"

definition get_context_for_llm :: "'a context_manager_scheme \<Rightarrow> (json \<times> string) list" where
  "get_context_for_llm cm =
     List.map_filter
       (\<lambda>turn. case content turn of JStr c \<Rightarrow> Some (role turn, c) | _ \<Rightarrow> None)
       (conversation_history cm)"

section \<open>core/api_handler.py\<close>

type_synonym bytes = "char list"

datatype part =
    Role_text json string
  | Image_part bytes
  | Text_part string

record request =
  model_name :: string
  contents :: "part list"
  safety_settings :: "(string \<times> string) list option"
  kwargs :: "(string \<times> string) list"

text \<open>
  One call of \<open>model.generate_content\<close>: it returns a response (of which the code
  reads the text), raises BlockedPromptException, or raises anything else.
\<close>

datatype attempt = Content string | Blocked | Failed

text \<open>
  The completion service is outside the program: the outcome of a call depends on how
  many calls were made before it and on the request, in any way.
\<close>

type_synonym service = "nat \<Rightarrow> request \<Rightarrow> attempt"

text \<open>
  The state of the running application: the context manager's fields, the requests
  sent to the completion service so far, the dictionaries \<open>execute_action\<close> was
  called with, and the lines it printed.
\<close>

record world = context_manager +
  api_log :: "request list"
  exec_log :: "action_data list"
  stdout :: "string list"

text \<open>
  \<open>_call_gemini_model\<close>: up to three attempts; a blocked prompt is raised again at
  once, any other failure is retried. The waiting between attempts is not modelled.
\<close>

fun call_attempts ::
  "nat \<Rightarrow> service \<Rightarrow> request \<Rightarrow> request list \<Rightarrow> (error + string) \<times> request list" where
  "call_attempts 0 svc req log = (Inl RetriesExhausted, log)"
| "call_attempts (Suc k) svc req log =
     (case svc (length log) req of
        Content t \<Rightarrow> (Inr t, log @ [req])
      | Blocked \<Rightarrow> (Inl BlockedPromptException, log @ [req])
      | Failed \<Rightarrow> call_attempts k svc req (log @ [req]))"

definition call_gemini_model :: "service \<Rightarrow> request \<Rightarrow> world \<Rightarrow> (error + string) \<times> world" where
  "call_gemini_model svc req w =
     (case call_attempts (Suc (Suc (Suc 0))) svc req (api_log w) of
        (r, log) \<Rightarrow> (r, w\<lparr>api_log := log\<rparr>))"

definition generate_text ::
  "service \<Rightarrow> string \<Rightarrow> string \<Rightarrow> (json \<times> string) list \<Rightarrow> (string \<times> string) list option
     \<Rightarrow> (string \<times> string) list \<Rightarrow> world \<Rightarrow> (error + string) \<times> world" where
  "generate_text svc name prompt history safety kw w =
     call_gemini_model svc
       \<lparr>model_name = name,
        contents = map (\<lambda>(r, c). Role_text r c) history @ [Role_text (JStr ''user'') prompt],
        safety_settings = safety, kwargs = kw\<rparr> w"

definition generate_vision_response ::
  "service \<Rightarrow> string \<Rightarrow> bytes \<Rightarrow> string \<Rightarrow> (string \<times> string) list option
     \<Rightarrow> (string \<times> string) list \<Rightarrow> world \<Rightarrow> (error + string) \<times> world" where
  "generate_vision_response svc name image_data prompt safety kw w =
     call_gemini_model svc
       \<lparr>model_name = name,
        contents = Image_part image_data # (if prompt \<noteq> [] then [Text_part prompt] else []),
        safety_settings = safety, kwargs = kw\<rparr> w"

section \<open>config.py\<close>

definition TEXT_MODEL :: string where
  "TEXT_MODEL = ''gemini-1.5-flash''"

definition VISION_MODEL :: string where
  "VISION_MODEL = ''gemini-1.5-flash''"

section \<open>agents/action_agent.py: execution\<close>

text \<open>
  \<open>execute_action\<close>: every call is recorded in \<open>exec_log\<close> before anything else;
  the placeholders print one line. \<open>data[:50]\<close> on a missing value raises TypeError.
\<close>

definition execute_action :: "action_data \<Rightarrow> world \<Rightarrow> (error + unit) \<times> world" where
  "execute_action action_data w =
     (let w0 = w\<lparr>exec_log := exec_log w @ [action_data]\<rparr>;
          action_type = action_data ''action''
      in if action_type = Some ''web_search'' then
           (Inr (), w0\<lparr>stdout := stdout w0 @
              [''\<newline>[ACTION]: Performing web search for: ''
               @ [CHR 0x27] @ show_opt (action_data ''query'') @ [CHR 0x27]
               @ '' (Placeholder: In a real app, this would use a search API like Google Search).'']\<rparr>)
         else if action_type = Some ''save_data'' then
           (case action_data ''data'' of
              None \<Rightarrow> (Inl TypeError, w0)
            | Some d \<Rightarrow>
                (Inr (), w0\<lparr>stdout := stdout w0 @
                   [''\<newline>[ACTION]: Saving data: '' @ [CHR 0x27] @ take 50 d @ ''...''
                    @ [CHR 0x27]
                    @ '' (Placeholder: In a real app, this would save to a database or file).'']\<rparr>))
         else if action_type = Some ''schedule_meeting'' then
           (case action_data ''details'' of
              None \<Rightarrow> (Inl TypeError, w0)
            | Some d \<Rightarrow>
                (Inr (), w0\<lparr>stdout := stdout w0 @
                   [''\<newline>[ACTION]: Scheduling meeting with details: '' @ [CHR 0x27]
                    @ take 50 d @ ''...'' @ [CHR 0x27]
                    @ '' (Placeholder: In a real app, this would integrate with a calendar API).'']\<rparr>))
         else (Inr (), w0))"

section \<open>agents/guardrail_agent.py\<close>

definition default_safety_settings :: "(string \<times> string) list" where
  "default_safety_settings =
     [(''HARM_CATEGORY_HARASSMENT'', ''BLOCK_NONE''),
      (''HARM_CATEGORY_HATE_SPEECH'', ''BLOCK_NONE''),
      (''HARM_CATEGORY_SEXUALLY_EXPLICIT'', ''BLOCK_NONE''),
      (''HARM_CATEGORY_DANGEROUS_CONTENT'', ''BLOCK_NONE'')]"

definition scan_config :: "(string \<times> string) list" where
  "scan_config = [(''temperature'', ''0.0''), (''max_output_tokens'', ''1'')]"

definition malicious_keywords :: "string list" where
  "malicious_keywords =
     [''delete all files'', ''Hacking'', ''format hard drive'', ''steal credit card'',
      ''harm yourself'', ''do something illegal'']"

text \<open>
  \<open>scan_text_input\<close>: the loop over the keywords returns at the first one found in
  the lower-cased input; otherwise one call of \<open>generate_text\<close> decides.
\<close>

definition scan_text_input :: "service \<Rightarrow> string \<Rightarrow> world \<Rightarrow> (bool \<times> string) \<times> world" where
  "scan_text_input svc text_input w =
     (case find (\<lambda>keyword. py_in keyword (lower text_input)) malicious_keywords of
        Some keyword \<Rightarrow>
          ((False, ''Your request contains content that violates our safety guidelines. Please rephrase your query.''), w)
      | None \<Rightarrow>
          (case generate_text svc TEXT_MODEL text_input [] (Some default_safety_settings)
                  scan_config w of
             (Inr _, w') \<Rightarrow> ((True, ''Text input is safe.''), w')
           | (Inl BlockedPromptException, w') \<Rightarrow>
               ((False, ''Your request was blocked by safety filters. Please try a different query.''), w')
           | (Inl _, w') \<Rightarrow>
               ((False, ''An internal error occurred during safety check. Please try again.''), w')))"

text \<open>The prompt \<open>scan_image_input\<close> builds (its \<open>vision_prompt\<close>).\<close>

definition scan_vision_prompt :: "string \<Rightarrow> string" where
  "scan_vision_prompt user_prompt =
     (let vision_prompt = ''Is this image safe? Describe any unsafe content if present.''
      in if user_prompt \<noteq> [] then vision_prompt @ '' Also consider: '' @ user_prompt
         else vision_prompt)"

definition scan_image_input ::
  "service \<Rightarrow> bytes \<Rightarrow> string \<Rightarrow> world \<Rightarrow> (bool \<times> string) \<times> world" where
  "scan_image_input svc image_data user_prompt w =
     (let vision_prompt = scan_vision_prompt user_prompt
      in case generate_vision_response svc VISION_MODEL image_data vision_prompt
                (Some default_safety_settings) scan_config w of
           (Inr _, w') \<Rightarrow> ((True, ''Image input is safe.''), w')
         | (Inl BlockedPromptException, w') \<Rightarrow>
             ((False, ''The image you provided was blocked by safety filters. Please try a different image.''), w')
         | (Inl _, w') \<Rightarrow>
             ((False, ''An internal error occurred during image safety check. Please try again.''), w'))"

section \<open>agents/text_agent.py, image_agent.py, response_agent.py\<close>

definition analyze_text ::
  "service \<Rightarrow> string \<Rightarrow> (json \<times> string) list \<Rightarrow> world \<Rightarrow> (error + string) \<times> world" where
  "analyze_text svc text_input history w =
     generate_text svc TEXT_MODEL
       (''The user said: '' @ [CHR 0x27] @ text_input @ [CHR 0x27]
        @ ''. Based on the conversation history, what is the main intent or key information in this statement? Keep it concise for internal processing.'')
       history None [] w"

definition analyze_image_from_bytes ::
  "service \<Rightarrow> bytes \<Rightarrow> string \<Rightarrow> world \<Rightarrow> (error + string) \<times> world" where
  "analyze_image_from_bytes svc image_data user_prompt w =
     (let base = ''Analyze this image.'';
          vision_prompt = (if user_prompt \<noteq> [] then base @ '' Specifically, '' @ user_prompt
                           else base)
      in generate_vision_response svc VISION_MODEL image_data vision_prompt None [] w)"

definition generate_response ::
  "service \<Rightarrow> string \<Rightarrow> (json \<times> string) list \<Rightarrow> world \<Rightarrow> (error + string) \<times> world" where
  "generate_response svc context_summary history w =
     generate_text svc TEXT_MODEL
       (''Based on the following context and conversation history, generate a helpful and concise response to the user. \<newline>\<newline>Context/Analysis: ''
        @ context_summary @ ''\<newline>\<newline>'')
       history None [] w"

section \<open>main.py\<close>

record upload =
  filename :: string
  data :: bytes

record form =
  text_input :: string
  image_file :: "upload option"

text \<open>
  \<open>secure_filename\<close> belongs to the web framework; it is a parameter of the model,
  like the completion service.
\<close>

record env =
  service :: service
  secure_filename :: "string \<Rightarrow> string"

datatype reply =
    Ok_reply string "entry list"
  | Error_reply error nat
  | Unhandled error

definition ALLOWED_EXTENSIONS :: "string list" where
  "ALLOWED_EXTENSIONS = [''png'', ''jpg'', ''jpeg'', ''gif'', ''webp'']"

definition allowed_file :: "string \<Rightarrow> bool" where
  "allowed_file name =
     (CHR ''.'' \<in> set name
      \<and> lower (rev (takeWhile (\<lambda>c. c \<noteq> CHR ''.'') (rev name))) \<in> set ALLOWED_EXTENSIONS)"

text \<open>\<open>uploaded_file and allowed_file(uploaded_file.filename)\<close>, giving the file.\<close>

definition allowed_upload :: "form \<Rightarrow> upload option" where
  "allowed_upload f =
     (case image_file f of
        None \<Rightarrow> None
      | Some u \<Rightarrow> if allowed_file (filename u) then Some u else None)"

text \<open>
  Guardrail step 1 (lines 61 to 74): the image scan for an allowed upload, else the text
  scan for a non-empty text, else no verdict (the request is answered with status 400).
\<close>

definition guardrail_step :: "env \<Rightarrow> form \<Rightarrow> world \<Rightarrow> ((bool \<times> string) \<times> world) option" where
  "guardrail_step e f w =
     (let user_input_text = strip (text_input f)
      in case allowed_upload f of
           Some u \<Rightarrow> Some (scan_image_input (service e) (data u) user_input_text w)
         | None \<Rightarrow>
             if user_input_text \<noteq> [] then Some (scan_text_input (service e) user_input_text w)
             else None)"

text \<open>
  The blocked branch (lines 76 to 81). Reading \<open>uploaded_file.filename\<close> with no
  upload would raise outside the \<open>try\<close>.
\<close>

definition blocked_turn :: "form \<Rightarrow> string \<Rightarrow> world \<Rightarrow> reply \<times> world" where
  "blocked_turn f guardrail_message w =
     (let user_input_text = strip (text_input f)
      in case (if user_input_text \<noteq> [] then Some user_input_text
               else map_option (\<lambda>u. ''[Image: '' @ filename u @ '']'') (image_file f)) of
           None \<Rightarrow> (Unhandled AttributeError, w)
         | Some user_entry \<Rightarrow>
             (let w1 = add_message ''user'' (JStr user_entry) w;
                  w2 = add_message ''model'' (JStr (''[Guardrail]: '' @ guardrail_message)) w1
              in (Ok_reply (''System: '' @ guardrail_message) (get_full_history w2), w2)))"

text \<open>
  Content analysis (lines 85 to 108): the result is the context summary and the first
  part of the response.
\<close>

definition analyze_step ::
  "env \<Rightarrow> form \<Rightarrow> (json \<times> string) list \<Rightarrow> world \<Rightarrow> (error + (string \<times> string)) \<times> world" where
  "analyze_step e f llm_history w =
     (let user_input_text = strip (text_input f)
      in case allowed_upload f of
           Some u \<Rightarrow>
             (case analyze_image_from_bytes (service e) (data u) user_input_text w of
                (Inl err, w1) \<Rightarrow> (Inl err, w1)
              | (Inr image_analysis, w1) \<Rightarrow>
                  (let w2 = add_message ''user''
                              (JStr (''[Image: '' @ secure_filename e (filename u) @ ''] ''
                                     @ (if user_input_text \<noteq> [] then user_input_text
                                        else ''Image provided.''))) w1;
                       w3 = add_message ''model''
                              (JStr (''[Image Analysis]: '' @ image_analysis)) w2
                   in (Inr (''Image analysis: '' @ image_analysis,
                            ''[Image Analysis]: '' @ image_analysis), w3)))
         | None \<Rightarrow>
             if user_input_text \<noteq> [] then
               (case analyze_text (service e) user_input_text llm_history w of
                  (Inl err, w1) \<Rightarrow> (Inl err, w1)
                | (Inr text_analysis, w1) \<Rightarrow>
                    (let w2 = add_message ''user'' (JStr user_input_text) w1;
                         w3 = add_message ''model''
                                (JStr (''[Text Analysis]: '' @ text_analysis)) w2
                     in (Inr (''Text analysis: '' @ text_analysis,
                              ''[Text Analysis]: '' @ text_analysis), w3)))
             else (Inr ([], []), w))"

text \<open>
  Action handling (lines 110 to 131): derive, validate, and execute only a valid action
  that is not \<open>none\<close>. The result is the action message.
\<close>

definition action_suffix :: "action_data \<Rightarrow> string" where
  "action_suffix action_data =
     (case action_data ''query'' of
        Some q \<Rightarrow> '' (Query: '' @ [CHR 0x27] @ q @ [CHR 0x27] @ '')''
      | None \<Rightarrow>
          (case action_data ''details'' of
             Some d \<Rightarrow> '' (Details: '' @ [CHR 0x27] @ take 50 d @ ''...'' @ [CHR 0x27] @ '')''
           | None \<Rightarrow> []))"

definition action_step :: "string \<Rightarrow> world \<Rightarrow> (error + string) \<times> world" where
  "action_step context_summary w =
     (case determine_action context_summary of
        Inl err \<Rightarrow> (Inl err, w)
      | Inr action_data \<Rightarrow>
          (case validate_action action_data of
             Inl err \<Rightarrow> (Inl err, w)
           | Inr (is_action_valid, action_validation_message) \<Rightarrow>
               if \<not> is_action_valid
               then (Inr (''[ACTION BLOCKED]: '' @ action_validation_message), w)
               else (case action_data ''action'' of
                       None \<Rightarrow> (Inl KeyError, w)
                     | Some t \<Rightarrow>
                         if t \<noteq> ''none'' then
                           (case execute_action action_data w of
                              (Inl err, w1) \<Rightarrow> (Inl err, w1)
                            | (Inr _, w1) \<Rightarrow>
                                (Inr (''[ACTION]: '' @ t @ '' performed.''
                                      @ action_suffix action_data), w1))
                         else (Inr ''[ACTION]: No specific action determined.'', w))))"

text \<open>
  \<open>chat\<close>: the whole turn. An exception inside the \<open>try\<close> is answered with status
  500; the history written before it stays.
\<close>

definition chat :: "env \<Rightarrow> form \<Rightarrow> world \<Rightarrow> reply \<times> world" where
  "chat e f w =
     (let llm_history = get_context_for_llm w
      in case guardrail_step e f w of
           None \<Rightarrow> (Error_reply NoInput 400, w)
         | Some ((is_input_safe, guardrail_message), w1) \<Rightarrow>
             if \<not> is_input_safe then blocked_turn f guardrail_message w1
             else
               (case analyze_step e f llm_history w1 of
                  (Inl err, w2) \<Rightarrow> (Error_reply err 500, w2)
                | (Inr (context_summary, gemini_response), w2) \<Rightarrow>
                    (case action_step context_summary w2 of
                       (Inl err, w3) \<Rightarrow> (Error_reply err 500, w3)
                     | (Inr action_message, w3) \<Rightarrow>
                         (case generate_response (service e) context_summary llm_history w3 of
                            (Inl err, w4) \<Rightarrow> (Error_reply err 500, w4)
                          | (Inr final_response_text, w4) \<Rightarrow>
                              (let w5 = add_message ''model'' (JStr final_response_text) w4
                               in (Ok_reply
                                     (gemini_response @ ''\<newline>\<newline>'' @ action_message
                                      @ ''\<newline>\<newline>Gemini: '' @ final_response_text)
                                     (get_full_history w5), w5))))))"

section \<open>Auxiliary definitions for the statements\<close>

text \<open>
  The application's state when \<open>main.py\<close> has created its global objects:
  \<open>ContextManager(history_file=HISTORY_FILE)\<close> with the default of ten turns, and no
  request served yet.
\<close>

definition start_world :: "file_state \<Rightarrow> bool \<Rightarrow> world" where
  "start_world file writable =
     \<lparr>max_history_turns = 10, conversation_history = load_history file,
      history_file = file, disk_writable = writable,
      api_log = [], exec_log = [], stdout = []\<rparr>"

text \<open>A sequence of \<open>add_message\<close> calls, in order.\<close>

fun add_messages ::
  "(string \<times> json) list \<Rightarrow> 'a context_manager_scheme \<Rightarrow> 'a context_manager_scheme" where
  "add_messages [] cm = cm"
| "add_messages ((r, c) # ms) cm = add_messages ms (add_message r c cm)"

text \<open>
  A completion service that answers every call the same way, an environment built on
  it (with \<open>secure_filename\<close> leaving the name as it is), and the message of a
  keyword block, for the examples.
\<close>

definition always :: "attempt \<Rightarrow> service" where
  "always outcome = (\<lambda>n req. outcome)"

definition demo_env :: "attempt \<Rightarrow> env" where
  "demo_env outcome = \<lparr>service = always outcome, secure_filename = (\<lambda>name. name)\<rparr>"

definition blocked_message :: string where
  "blocked_message = ''Your request contains content that violates our safety guidelines. Please rephrase your query.''"

text \<open>The last \<open>k\<close> elements of a list, and the entry \<open>add_message\<close> builds.\<close>

definition last_n :: "nat \<Rightarrow> 'a list \<Rightarrow> 'a list" where
  "last_n k xs = drop (length xs - k) xs"

definition new_entry :: "string \<times> json \<Rightarrow> entry" where
  "new_entry m = \<lparr>role = JStr (fst m), content = snd m, others = []\<rparr>"

text \<open>
  The web-search payload as the specification words it: the part of the summary itself
  that follows the marker (found without regard to case), trimmed.
\<close>

definition spec_web_search_payload :: "string \<Rightarrow> string" where
  "spec_web_search_payload summary =
     (case find_first marker (lower summary) of
        None \<Rightarrow> []
      | Some (pre, post) \<Rightarrow> strip (drop (length pre + length marker) summary))"

section \<open>Facts about the string operations\<close>

text \<open>
  Both character tests written on the bits of the character, so that the simplifier
  evaluates them on a literal in a few steps.
\<close>

lemma lower_char_bits:
  "lower_char (Char b0 b1 b2 b3 b4 b5 b6 b7) =
     (if \<not> b7 \<and> b6 \<and> \<not> b5 \<and> (b0 \<or> b1 \<or> b2 \<or> b3 \<or> b4)
         \<and> \<not> (b4 \<and> b3 \<and> (b2 \<or> (b1 \<and> b0)))
      then Char b0 b1 b2 b3 b4 True b6 b7 else Char b0 b1 b2 b3 b4 b5 b6 b7)"
  by (cases b0; cases b1; cases b2; cases b3; cases b4; cases b5; cases b6; cases b7)
     (simp_all add: lower_char_def)

lemma is_space_bits:
  "is_space (Char b0 b1 b2 b3 b4 b5 b6 b7) =
     (\<not> b7 \<and> \<not> b6
      \<and> (if b5 then \<not> (b0 \<or> b1 \<or> b2 \<or> b3 \<or> b4)
          else if b4 then b3 \<and> b2
          else b3 \<and> (b0 \<or> b1 \<or> b2) \<and> \<not> (b2 \<and> b1)))"
  by (cases b0; cases b1; cases b2; cases b3; cases b4; cases b5; cases b6; cases b7)
     (simp_all add: is_space_def)

lemma lower_Nil: "lower [] = []"
  by (simp add: lower_def)

lemma lower_Cons: "lower (c # cs) = lower_char c # lower cs"
  by (simp add: lower_def)

lemmas lower_eval = lower_Nil lower_Cons lower_char_bits

lemma py_in_iff: "py_in kw s \<longleftrightarrow> (\<exists>pre post. s = pre @ kw @ post)"
proof (induction s)
  case Nil
  then show ?case by auto
next
  case (Cons c cs)
  show ?case
  proof
    assume "py_in kw (c # cs)"
    then consider "prefix kw (c # cs)" | "py_in kw cs" by auto
    then show "\<exists>pre post. c # cs = pre @ kw @ post"
    proof cases
      case 1
      then obtain post where "c # cs = kw @ post" by (auto simp: prefix_def)
      then have "c # cs = [] @ kw @ post" by simp
      then show ?thesis by blast
    next
      case 2
      with Cons.IH obtain pre post where "cs = pre @ kw @ post" by blast
      then have "c # cs = (c # pre) @ kw @ post" by simp
      then show ?thesis by blast
    qed
  next
    assume "\<exists>pre post. c # cs = pre @ kw @ post"
    then obtain pre post where eq: "c # cs = pre @ kw @ post" by blast
    show "py_in kw (c # cs)"
    proof (cases pre)
      case Nil
      with eq have "prefix kw (c # cs)" by (simp add: prefix_def)
      then show ?thesis by simp
    next
      case (Cons p ps)
      with eq have "cs = ps @ kw @ post" by simp
      with Cons.IH have "py_in kw cs" by blast
      then show ?thesis by simp
    qed
  qed
qed

lemma py_in_trans: "py_in a b \<Longrightarrow> py_in b c \<Longrightarrow> py_in a c"
  unfolding py_in_iff
  by (metis append.assoc)

lemma lower_append: "lower (xs @ ys) = lower xs @ lower ys"
  by (simp add: lower_def)

lemma find_first_Some:
  "find_first sep s = Some (pre, post) \<Longrightarrow> s = pre @ sep @ post"
proof (induction s arbitrary: pre)
  case Nil
  then show ?case by (simp split: if_splits)
next
  case (Cons c cs)
  show ?case
  proof (cases "prefix sep (c # cs)")
    case True
    with Cons.prems have "pre = []" "post = drop (length sep) (c # cs)" by auto
    moreover from True obtain r where "c # cs = sep @ r" by (auto simp: prefix_def)
    ultimately show ?thesis by simp
  next
    case False
    with Cons.prems obtain pre' where "find_first sep cs = Some (pre', post)" "pre = c # pre'"
      by (auto split: option.splits)
    with Cons.IH show ?thesis by simp
  qed
qed

lemma find_first_least:
  "find_first sep s = Some (pre, post) \<Longrightarrow> s = pre' @ sep @ post' \<Longrightarrow> length pre \<le> length pre'"
proof (induction s arbitrary: pre pre')
  case Nil
  then show ?case by (simp split: if_splits)
next
  case (Cons c cs)
  show ?case
  proof (cases "prefix sep (c # cs)")
    case True
    with Cons.prems(1) have "pre = []" by simp
    then show ?thesis by simp
  next
    case False
    with Cons.prems(1) obtain p where p: "find_first sep cs = Some (p, post)" "pre = c # p"
      by (auto split: option.splits)
    from False Cons.prems(2) have "pre' \<noteq> []" by (auto simp: prefix_def)
    then obtain q where q: "pre' = c # q" using Cons.prems(2) by (cases pre') auto
    with Cons.prems(2) have "cs = q @ sep @ post'" by simp
    with Cons.IH[OF p(1)] have "length p \<le> length q" by blast
    with p q show ?thesis by simp
  qed
qed

lemma find_first_None: "find_first sep s = None \<longleftrightarrow> \<not> py_in sep s"
  by (induction s) (auto split: option.splits)

lemma find_first_total:
  "py_in sep s \<Longrightarrow> \<exists>pre post. find_first sep s = Some (pre, post)"
  using find_first_None[of sep s] by (cases "find_first sep s") auto

lemma split_once_found:
  "py_in sep s \<Longrightarrow> \<exists>pre post. find_first sep s = Some (pre, post) \<and> split_once sep s = [pre, post]"
  using find_first_total[of sep s] by (auto simp: split_once_def)

text \<open>The definitions that evaluate the string operations on a literal.\<close>

lemmas eval_defs = determine_action_def marker_def lower_eval split_once_def
        strip_def is_space_bits

lemma strip_keeps:
  assumes "\<not> is_space a" "\<not> is_space b"
  shows "\<exists>pre' post'. strip (pre @ a # mid @ b # post) = pre' @ a # mid @ b # post'"
proof -
  have 1: "dropWhile is_space (pre @ a # mid @ b # post)
             = dropWhile is_space pre @ a # mid @ b # post"
    using assms(1) by (simp add: dropWhile_append3)
  have "rev (dropWhile is_space pre @ a # mid @ b # post)
          = rev post @ b # (rev mid @ a # rev (dropWhile is_space pre))"
    by simp
  then have 2: "dropWhile is_space (rev (dropWhile is_space pre @ a # mid @ b # post))
          = dropWhile is_space (rev post) @ b # (rev mid @ a # rev (dropWhile is_space pre))"
    using assms(2) by (simp add: dropWhile_append3)
  have "strip (pre @ a # mid @ b # post)
          = dropWhile is_space pre @ a # mid @ b # rev (dropWhile is_space (rev post))"
    unfolding strip_def 1 2 by simp
  then show ?thesis by blast
qed

lemma py_in_strip:
  assumes "py_in (a # mid @ [b]) s" "\<not> is_space a" "\<not> is_space b"
  shows "py_in (a # mid @ [b]) (strip s)"
proof -
  from assms(1) obtain pre post where "s = pre @ (a # mid @ [b]) @ post"
    unfolding py_in_iff by blast
  then have s: "s = pre @ a # mid @ b # post" by simp
  from strip_keeps[OF assms(2,3), of pre mid post] obtain pre' post'
    where "strip s = pre' @ a # mid @ b # post'" unfolding s by blast
  then have "strip s = pre' @ (a # mid @ [b]) @ post'" by simp
  then show ?thesis unfolding py_in_iff by blast
qed

lemma py_in_lower: "py_in kw x \<Longrightarrow> lower kw = kw \<Longrightarrow> py_in kw (lower x)"
proof -
  assume "py_in kw x" and kw: "lower kw = kw"
  then obtain pre post where "x = pre @ kw @ post" unfolding py_in_iff by blast
  then have "lower x = lower pre @ kw @ lower post" by (simp add: lower_append kw)
  then show ?thesis unfolding py_in_iff by blast
qed

lemma information_has_format: "py_in ''information'' d \<Longrightarrow> py_in ''format'' d"
proof -
  have "py_in ''format'' ''information''" by simp
  then show "py_in ''information'' d \<Longrightarrow> py_in ''format'' d" by (rule py_in_trans)
qed

lemma web_search_destructive:
  assumes t: "action_data ''action'' = Some ''web_search''"
      and q: "action_data ''query'' = Some q"
      and d: "py_in ''format'' (lower q) \<or> py_in ''delete'' (lower q)"
  shows "validate_action action_data
           \<in> {Inr (False, ''Cannot perform web search for harmful or illegal content.''),
              Inr (False, ''Cannot perform web search for potentially destructive actions.'')}"
proof -
  from d have "lower q \<noteq> []" by auto
  then have "q \<noteq> []" by (auto simp: lower_def)
  then have "py_or (py_or (action_data ''query'') (action_data ''data'')) (action_data ''details'')
               = Some q"
    by (simp add: py_or_def truthy_def q)
  then show ?thesis using t d by (auto simp: validate_action_def Let_def)
qed

lemma after_first_marker:
  assumes ff: "find_first sep s = Some (p, r)"
      and s: "s = pre @ sep @ mid @ kw @ post"
  shows "py_in kw r"
proof -
  have le: "length p \<le> length pre" using find_first_least[OF ff, of pre "mid @ kw @ post"] s by simp
  have "s = p @ sep @ r" using find_first_Some[OF ff] .
  then have "r = drop (length p + length sep) s" by simp
  also have "\<dots> = drop (length p + length sep) ((pre @ sep) @ mid @ kw @ post)" using s by simp
  also have "\<dots> = drop (length p + length sep) (pre @ sep) @ mid @ kw @ post"
    using le by (simp only: drop_append) simp
  finally have "r = (drop (length p + length sep) (pre @ sep) @ mid) @ kw @ post" by simp
  then show ?thesis unfolding py_in_iff by blast
qed

section \<open>Facts about the history store\<close>

lemma save_history_fields [simp]:
  "conversation_history (save_history cm) = conversation_history cm"
  "max_history_turns (save_history cm) = max_history_turns cm"
  by (simp_all add: save_history_def)

lemma add_message_max [simp]:
  "max_history_turns (add_message r c cm) = max_history_turns cm"
  by (simp add: add_message_def Let_def)

lemma add_message_history:
  "1 \<le> max_history_turns cm \<Longrightarrow>
   conversation_history (add_message r c cm)
     = last_n (nat (max_history_turns cm)) (conversation_history cm @ [new_entry (r, c)])"
  by (auto simp: add_message_def Let_def slice_from_def last_n_def new_entry_def
      intro!: arg_cong2[where f = drop])

lemma last_n_snoc: "last_n k (last_n k xs @ [x]) = last_n k (xs @ [x])"
  by (cases "k \<le> length xs") (auto simp: last_n_def Suc_diff_le)

lemma add_messages_max [simp]:
  "max_history_turns (add_messages ms cm) = max_history_turns cm"
  by (induction ms cm rule: add_messages.induct) simp_all

lemma add_messages_snoc:
  "add_messages (ms @ [(r, c)]) cm = add_message r c (add_messages ms cm)"
  by (induction ms cm rule: add_messages.induct) simp_all

lemma add_messages_history:
  "1 \<le> max_history_turns cm \<Longrightarrow> length (conversation_history cm) \<le> nat (max_history_turns cm) \<Longrightarrow>
   conversation_history (add_messages ms cm)
     = last_n (nat (max_history_turns cm)) (conversation_history cm @ map new_entry ms)"
proof (induction ms arbitrary: cm rule: rev_induct)
  case Nil
  then show ?case by (simp add: last_n_def)
next
  case (snoc m ms)
  obtain r c where m: "m = (r, c)" by (cases m)
  have "conversation_history (add_messages (ms @ [m]) cm)
          = last_n (nat (max_history_turns cm))
              (conversation_history (add_messages ms cm) @ [new_entry m])"
    using snoc.prems(1) by (simp add: add_messages_snoc add_message_history m)
  also have "\<dots> = last_n (nat (max_history_turns cm))
                     ((conversation_history cm @ map new_entry ms) @ [new_entry m])"
    by (simp only: snoc.IH[OF snoc.prems] last_n_snoc)
  finally show ?case by simp
qed


lemma length_last_n: "length (last_n k xs) = min k (length xs)"
  by (auto simp: last_n_def)

lemma entry_of_json_all:
  "list_all (\<lambda>item. entry_of_json item \<noteq> None) items \<Longrightarrow>
   map entry_of_json items = map Some (List.map_filter entry_of_json items)"
  by (induction items) (auto simp: List.map_filter_simps)

lemma add_message_twice:
  assumes "2 \<le> max_history_turns cm"
  shows "\<exists>kept. conversation_history (add_message r2 c2 (add_message r1 c1 cm))
           = kept @ [new_entry (r1, c1), new_entry (r2, c2)]"
proof -
  let ?n = "nat (max_history_turns cm)"
  let ?h = "conversation_history cm"
  have n: "2 \<le> ?n" using assms by simp
  have "conversation_history (add_message r2 c2 (add_message r1 c1 cm))
          = last_n ?n (last_n ?n (?h @ [new_entry (r1, c1)]) @ [new_entry (r2, c2)])"
    using assms by (simp add: add_message_history)
  also have "\<dots> = last_n ?n ((?h @ [new_entry (r1, c1)]) @ [new_entry (r2, c2)])"
    by (simp only: last_n_snoc)
  also have "\<dots> = drop (length ?h + 2 - ?n) ?h @ [new_entry (r1, c1), new_entry (r2, c2)]"
    using n by (simp add: last_n_def)
  finally show ?thesis by blast
qed

section \<open>Facts about the retry loop and the state each step touches\<close>

lemma call_attempts_errors:
  "fst (call_attempts k svc req log) = Inl e \<Longrightarrow> e = BlockedPromptException \<or> e = RetriesExhausted"
  by (induction k svc req log rule: call_attempts.induct) (auto split: attempt.splits)

lemma call_attempts_log:
  "\<exists>new. snd (call_attempts k svc req log) = log @ new \<and> length new \<le> k"
proof (induction k svc req log rule: call_attempts.induct)
  case (1 svc req log)
  then show ?case by simp
next
  case (2 k svc req log)
  show ?case
  proof (cases "svc (length log) req")
    case (Content t)
    then show ?thesis by simp
  next
    case Blocked
    then show ?thesis by simp
  next
    case Failed
    with 2 obtain new where "snd (call_attempts k svc req (log @ [req])) = (log @ [req]) @ new"
      "length new \<le> k" by blast
    then have "snd (call_attempts (Suc k) svc req log) = log @ (req # new) \<and> length (req # new) \<le> Suc k"
      using Failed by simp
    then show ?thesis by blast
  qed
qed

lemma call_always_content:
  "call_gemini_model (always (Content a)) req w = (Inr a, w\<lparr>api_log := api_log w @ [req]\<rparr>)"
  by (simp add: call_gemini_model_def always_def)

lemma call_always_failed:
  "call_gemini_model (always Failed) req w
     = (Inl RetriesExhausted, w\<lparr>api_log := api_log w @ [req, req, req]\<rparr>)"
  by (simp add: call_gemini_model_def always_def)

lemma call_always_blocked:
  "call_gemini_model (always Blocked) req w
     = (Inl BlockedPromptException, w\<lparr>api_log := api_log w @ [req]\<rparr>)"
  by (simp add: call_gemini_model_def always_def)

lemma call_gemini_model_frame [simp]:
  "exec_log (snd (call_gemini_model svc req w)) = exec_log w"
  "conversation_history (snd (call_gemini_model svc req w)) = conversation_history w"
  "max_history_turns (snd (call_gemini_model svc req w)) = max_history_turns w"
  "stdout (snd (call_gemini_model svc req w)) = stdout w"
  by (simp_all add: call_gemini_model_def split: prod.splits)

lemma generate_frame [simp]:
  "exec_log (snd (generate_text svc n p h s k w)) = exec_log w"
  "exec_log (snd (generate_vision_response svc n i p s k w)) = exec_log w"
  "max_history_turns (snd (generate_text svc n p h s k w)) = max_history_turns w"
  "max_history_turns (snd (generate_vision_response svc n i p s k w)) = max_history_turns w"
  by (simp_all add: generate_text_def generate_vision_response_def)

lemma add_message_frame [simp]:
  "exec_log (add_message r c w) = exec_log w"
  "api_log (add_message r c w) = api_log w"
  "stdout (add_message r c w) = stdout w"
  by (simp_all add: add_message_def save_history_def Let_def)

lemma scan_frame [simp]:
  "exec_log (snd (scan_text_input svc t w)) = exec_log w"
  "exec_log (snd (scan_image_input svc i p w)) = exec_log w"
  "max_history_turns (snd (scan_text_input svc t w)) = max_history_turns w"
  "max_history_turns (snd (scan_image_input svc i p w)) = max_history_turns w"
proof -
  have g: "exec_log b = exec_log w \<and> max_history_turns b = max_history_turns w"
    if "generate_text svc n p h s k w = (a, b)" for n p h s k a b
    using generate_frame(1,3)[of svc n p h s k w] that by simp
  have v: "exec_log b = exec_log w \<and> max_history_turns b = max_history_turns w"
    if "generate_vision_response svc n i p s k w = (a, b)" for n i p s k a b
    using generate_frame(2,4)[of svc n i p s k w] that by simp
  show "exec_log (snd (scan_text_input svc t w)) = exec_log w"
    "max_history_turns (snd (scan_text_input svc t w)) = max_history_turns w"
    by (auto simp: scan_text_input_def dest: g split: option.splits prod.splits sum.splits error.splits)
  show "exec_log (snd (scan_image_input svc i p w)) = exec_log w"
    "max_history_turns (snd (scan_image_input svc i p w)) = max_history_turns w"
    by (auto simp: scan_image_input_def Let_def dest: v split: prod.splits sum.splits error.splits)
qed

lemma validate_valid_message:
  "validate_action a = Inr (True, m) \<Longrightarrow> m = ''Action is valid.''"
  by (auto simp: validate_action_def check_known_def Let_def split: if_splits option.splits)

lemma execute_action_log:
  "exec_log (snd (execute_action a w)) = exec_log w @ [a]"
  by (simp add: execute_action_def Let_def split: option.splits)

lemma action_step_exec:
  "\<exists>new. exec_log (snd (action_step s w)) = exec_log w @ new \<and> length new \<le> 1
     \<and> (\<forall>a\<in>set new. determine_action s = Inr a
            \<and> validate_action a = Inr (True, ''Action is valid.'')
            \<and> a ''action'' \<noteq> Some ''none'')"
proof (cases "determine_action s")
  case (Inl e)
  then show ?thesis by (simp add: action_step_def)
next
  case (Inr a)
  note da = this
  show ?thesis
  proof (cases "validate_action a")
    case (Inl e)
    with da show ?thesis by (simp add: action_step_def)
  next
    case (Inr v)
    obtain ok m where v: "v = (ok, m)" by (cases v)
    show ?thesis
    proof (cases "ok \<and> (\<exists>t. a ''action'' = Some t \<and> t \<noteq> ''none'')")
      case False
      with da Inr v show ?thesis
        by (auto simp: action_step_def split: option.splits)
    next
      case True
      then obtain t where t: "a ''action'' = Some t" "t \<noteq> ''none''" and ok: ok by blast
      from Inr v ok have va: "validate_action a = Inr (True, ''Action is valid.'')"
        using validate_valid_message[of a m] by simp
      have "exec_log (snd (action_step s w)) = exec_log w @ [a]"
        using da va t execute_action_log[of a w]
        by (cases "execute_action a w") (auto simp: action_step_def split: sum.splits)
      with da va t show ?thesis by (intro exI[of _ "[a]"]) simp
    qed
  qed
qed

lemma analyze_frame [simp]:
  "exec_log (snd (analyze_text svc t h w)) = exec_log w"
  "exec_log (snd (analyze_image_from_bytes svc i p w)) = exec_log w"
  "exec_log (snd (generate_response svc c h w)) = exec_log w"
  by (simp_all add: analyze_text_def analyze_image_from_bytes_def generate_response_def Let_def)

lemma analyze_step_frame [simp]:
  "exec_log (snd (analyze_step e f h w)) = exec_log w"
proof -
  have a: "exec_log b = exec_log w" if "analyze_text svc t h w = (x, b)" for svc t x b
    using analyze_frame(1)[of svc t h w] that by simp
  have b: "exec_log b = exec_log w" if "analyze_image_from_bytes svc i p w = (x, b)" for svc i p x b
    using analyze_frame(2)[of svc i p w] that by simp
  show ?thesis
    by (auto simp: analyze_step_def Let_def dest: a b split: option.splits prod.splits sum.splits)
qed

lemma guardrail_step_frame:
  "guardrail_step e f w = Some (v, w1) \<Longrightarrow> exec_log w1 = exec_log w"
proof -
  assume g: "guardrail_step e f w = Some (v, w1)"
  have a: "exec_log b = exec_log w" if "scan_text_input svc t w = (x, b)" for svc t x b
    using scan_frame(1)[of svc t w] that by simp
  have b: "exec_log b = exec_log w" if "scan_image_input svc i p w = (x, b)" for svc i p x b
    using scan_frame(2)[of svc i p w] that by simp
  from g show ?thesis
    by (auto simp: guardrail_step_def Let_def dest: a b split: option.splits if_splits)
qed

lemma guardrail_step_max:
  "guardrail_step e f w = Some (v, w1) \<Longrightarrow> max_history_turns w1 = max_history_turns w"
proof -
  assume g: "guardrail_step e f w = Some (v, w1)"
  have a: "max_history_turns b = max_history_turns w" if "scan_text_input svc t w = (x, b)" for svc t x b
    using scan_frame(3)[of svc t w] that by simp
  have b: "max_history_turns b = max_history_turns w" if "scan_image_input svc i p w = (x, b)" for svc i p x b
    using scan_frame(4)[of svc i p w] that by simp
  from g show ?thesis
    by (auto simp: guardrail_step_def Let_def dest: a b split: option.splits if_splits)
qed

lemma guardrail_step_input:
  "guardrail_step e f w = Some r \<Longrightarrow>
     strip (text_input f) \<noteq> [] \<or> (\<exists>u. image_file f = Some u)"
  by (auto simp: guardrail_step_def allowed_upload_def Let_def split: option.splits if_splits)

lemma blocked_turn_frame [simp]:
  "exec_log (snd (blocked_turn f m w)) = exec_log w"
  "api_log (snd (blocked_turn f m w)) = api_log w"
  by (simp_all add: blocked_turn_def Let_def split: option.splits)

lemma chat_exec_log:
  assumes g: "guardrail_step e f w = Some ((True, m), w1)"
      and a: "analyze_step e f (get_context_for_llm w) w1 = (Inr (s, r), w2)"
  shows "exec_log (snd (chat e f w)) = exec_log (snd (action_step s w2))"
proof -
  obtain r3 w3 where ac: "action_step s w2 = (r3, w3)" by (cases "action_step s w2")
  show ?thesis
  proof (cases r3)
    case (Inl err)
    with g a ac show ?thesis by (simp add: chat_def)
  next
    case (Inr action_message)
    obtain r4 w4 where gr: "generate_response (service e) s (get_context_for_llm w) w3 = (r4, w4)"
      by (cases "generate_response (service e) s (get_context_for_llm w) w3")
    have w4: "exec_log w4 = exec_log w3"
      using analyze_frame(3)[of "service e" s "get_context_for_llm w" w3] gr by simp
    from g a ac Inr gr w4 show ?thesis
      by (cases r4) (simp_all add: chat_def Let_def)
  qed
qed

text \<open>The steps of two example turns, evaluated.\<close>

lemma demo_guardrail:
  "\<exists>w1. guardrail_step (demo_env (Content a)) \<lparr>text_input = ''hi'', image_file = None\<rparr> w
          = Some ((True, ''Text input is safe.''), w1) \<and> exec_log w1 = exec_log w"
  by (simp add: guardrail_step_def allowed_upload_def scan_text_input_def malicious_keywords_def
      generate_text_def call_always_content demo_env_def strip_def is_space_bits lower_eval)

lemma demo_analyze:
  "\<exists>w2. analyze_step (demo_env (Content a)) \<lparr>text_input = ''hi'', image_file = None\<rparr> h w
          = (Inr (''Text analysis: '' @ a, ''[Text Analysis]: '' @ a), w2)
        \<and> exec_log w2 = exec_log w"
  by (simp add: analyze_step_def allowed_upload_def analyze_text_def
      generate_text_def call_always_content demo_env_def strip_def is_space_bits Let_def)

lemma demo_action:
  "exec_log (snd (action_step ''Text analysis: schedule meeting'' w))
     = exec_log w @ [[''action'' \<mapsto> ''schedule_meeting'',
                      ''details'' \<mapsto> ''Text analysis: schedule meeting'']]"
  by (simp add: action_step_def eval_defs validate_action_def py_or_def truthy_def
      guarded_any_def any_in_def schedule_meeting_keywords_def check_known_def known_actions_def
      execute_action_def Let_def)

lemma demo_blocked:
  "guardrail_step e \<lparr>text_input = '' format hard drive'', image_file = None\<rparr> w
     = Some ((False, blocked_message), w)"
  by (simp add: guardrail_step_def allowed_upload_def scan_text_input_def malicious_keywords_def
      strip_def is_space_bits lower_eval blocked_message_def)

text \<open>
  The keyword stage on its own: a keyword found in the lower-cased input gives the
  block message at once, and the state, the log of service calls included, is unchanged.
\<close>

lemma stage1_blocks:
  "keyword \<in> set malicious_keywords \<Longrightarrow> py_in keyword (lower input_text) \<Longrightarrow>
   scan_text_input svc input_text w = ((False, blocked_message), w)"
proof -
  assume "keyword \<in> set malicious_keywords" "py_in keyword (lower input_text)"
  then have "find (\<lambda>keyword. py_in keyword (lower input_text)) malicious_keywords \<noteq> None"
    by (auto simp: find_None_iff)
  then show ?thesis
    by (auto simp: scan_text_input_def blocked_message_def)
qed

section \<open>Validation of actions\<close>

text \<open>
  C5. \<open>validate_action\<close> returns valid for every action dictionary of type \<open>none\<close>,
  whatever its payload, and returns invalid (with the "unsupported" message) for every
  dictionary whose type is not one of \<open>none\<close>, \<open>web_search\<close>, \<open>save_data\<close>,
  \<open>schedule_meeting\<close>, a missing type included, whatever its payload.
\<close>

theorem validate_action_closed_world:
  "(action_data ''action'' = Some ''none''
      \<longrightarrow> validate_action action_data = Inr (True, ''Action is valid.''))
   \<and> (action_data ''action'' \<notin> {Some ''none'', Some ''web_search'', Some ''save_data'',
                                    Some ''schedule_meeting''}
      \<longrightarrow> validate_action action_data =
            Inr (False, ''Unsupported or unauthorized action: '' @ [CHR 0x27]
                          @ show_opt (action_data ''action'') @ [CHR 0x27] @ ''.''))"
  by (cases "action_data ''action''")
     (simp_all add: validate_action_def check_known_def known_actions_def)

theorem validate_action_closed_world_witness:
  "validate_action [''action'' \<mapsto> ''none'', ''query'' \<mapsto> ''delete illegal drugs'']
     = Inr (True, ''Action is valid.'')
   \<and> validate_action [''action'' \<mapsto> ''wire_money'', ''details'' \<mapsto> ''hello'']
     = Inr (False, ''Unsupported or unauthorized action: '' @ [CHR 0x27]
                     @ ''wire_money'' @ [CHR 0x27] @ ''.'')"
  using validate_action_closed_world
          [of "[''action'' \<mapsto> ''none'', ''query'' \<mapsto> ''delete illegal drugs'']"]
        validate_action_closed_world
          [of "[''action'' \<mapsto> ''wire_money'', ''details'' \<mapsto> ''hello'']"]
  by (simp add: show_opt_def)

text \<open>
  C4 (the code fails where the claim promises a verdict). A summary that ends with the
  marker gives a \<open>web_search\<close> request with an empty query; \<open>validate_action\<close> then
  has \<open>details = None\<close> and its second, unguarded test raises AttributeError instead of
  returning a verdict.
\<close>

theorem validate_action_empty_query:
  "determine_action ''Text analysis: Search the web for ''
     = Inr [''action'' \<mapsto> ''web_search'', ''query'' \<mapsto> '''']
   \<and> validate_action [''action'' \<mapsto> ''web_search'', ''query'' \<mapsto> ''''] = Inl AttributeError"
  by (simp add: determine_action_def marker_def lower_eval split_once_def
        strip_def is_space_bits validate_action_def py_or_def truthy_def guarded_any_def)

section \<open>Derivation of actions\<close>

text \<open>
  C6, as amended. \<open>determine_action\<close> never fails and answers by first match in the
  order \<open>web_search\<close>, \<open>save_data\<close>, \<open>schedule_meeting\<close>, \<open>none\<close> over the lower-cased
  summary. When the lower-cased summary contains the marker, the query is the part of the
  LOWER-CASED summary after the first occurrence of the marker, trimmed; the payload of
  \<open>save_data\<close> and \<open>schedule_meeting\<close> is the summary as given.
\<close>

theorem determine_action_first_match:
  "(py_in marker (lower s) \<longrightarrow>
      (\<exists>pre post. lower s = pre @ marker @ post
         \<and> (\<forall>pre' post'. lower s = pre' @ marker @ post' \<longrightarrow> length pre \<le> length pre')
         \<and> determine_action s = Inr [''action'' \<mapsto> ''web_search'', ''query'' \<mapsto> strip post]))
   \<and> (\<not> py_in marker (lower s) \<and> py_in ''save this information'' (lower s) \<longrightarrow>
        determine_action s = Inr [''action'' \<mapsto> ''save_data'', ''data'' \<mapsto> s])
   \<and> (\<not> py_in marker (lower s) \<and> \<not> py_in ''save this information'' (lower s)
        \<and> py_in ''schedule'' (lower s) \<and> py_in ''meeting'' (lower s) \<longrightarrow>
        determine_action s = Inr [''action'' \<mapsto> ''schedule_meeting'', ''details'' \<mapsto> s])
   \<and> (\<not> py_in marker (lower s) \<and> \<not> py_in ''save this information'' (lower s)
        \<and> \<not> (py_in ''schedule'' (lower s) \<and> py_in ''meeting'' (lower s)) \<longrightarrow>
        determine_action s = Inr [''action'' \<mapsto> ''none''])"
proof -
  have first: "\<exists>pre post. lower s = pre @ marker @ post
         \<and> (\<forall>pre' post'. lower s = pre' @ marker @ post' \<longrightarrow> length pre \<le> length pre')
         \<and> determine_action s = Inr [''action'' \<mapsto> ''web_search'', ''query'' \<mapsto> strip post]"
    if m: "py_in marker (lower s)"
  proof -
    from split_once_found[OF m] obtain pre post
      where ff: "find_first marker (lower s) = Some (pre, post)"
        and sp: "split_once marker (lower s) = [pre, post]" by blast
    have "lower s = pre @ marker @ post" using find_first_Some[OF ff] .
    moreover have "\<forall>pre' post'. lower s = pre' @ marker @ post' \<longrightarrow> length pre \<le> length pre'"
      using find_first_least[OF ff] by blast
    moreover have "determine_action s = Inr [''action'' \<mapsto> ''web_search'', ''query'' \<mapsto> strip post]"
      using m sp by (simp add: determine_action_def)
    ultimately show ?thesis by blast
  qed
  show ?thesis
    using first by (simp add: determine_action_def)
qed

theorem determine_action_first_match_witness:
  "py_in marker (lower ''Please search the web for illegal drugs now'')
   \<and> determine_action ''Please search the web for illegal drugs now''
       = Inr [''action'' \<mapsto> ''web_search'', ''query'' \<mapsto> ''illegal drugs now'']
   \<and> determine_action ''Please SAVE this information''
       = Inr [''action'' \<mapsto> ''save_data'', ''data'' \<mapsto> ''Please SAVE this information'']
   \<and> determine_action ''Let's schedule a meeting for Tuesday''
       = Inr [''action'' \<mapsto> ''schedule_meeting'',
              ''details'' \<mapsto> ''Let's schedule a meeting for Tuesday'']
   \<and> determine_action ''schedule a call'' = Inr [''action'' \<mapsto> ''none'']"
proof -
  have h1: "py_in marker (lower ''Please search the web for illegal drugs now'')"
    by (simp add: marker_def lower_eval)
  from determine_action_first_match[of "''Please search the web for illegal drugs now''"] h1
  obtain post where
    "determine_action ''Please search the web for illegal drugs now''
       = Inr [''action'' \<mapsto> ''web_search'', ''query'' \<mapsto> strip post]"
    by blast
  have d1: "determine_action ''Please search the web for illegal drugs now''
       = Inr [''action'' \<mapsto> ''web_search'', ''query'' \<mapsto> ''illegal drugs now'']"
    by (simp add: eval_defs)
  have h2: "\<not> py_in marker (lower ''Please SAVE this information'')
            \<and> py_in ''save this information'' (lower ''Please SAVE this information'')"
    by (simp add: marker_def lower_eval)
  have d2: "determine_action ''Please SAVE this information''
       = Inr [''action'' \<mapsto> ''save_data'', ''data'' \<mapsto> ''Please SAVE this information'']"
    using determine_action_first_match[of "''Please SAVE this information''"] h2 by blast
  have h3: "\<not> py_in marker (lower ''Let's schedule a meeting for Tuesday'')
            \<and> \<not> py_in ''save this information'' (lower ''Let's schedule a meeting for Tuesday'')
            \<and> py_in ''schedule'' (lower ''Let's schedule a meeting for Tuesday'')
            \<and> py_in ''meeting'' (lower ''Let's schedule a meeting for Tuesday'')"
    by (simp add: marker_def lower_eval)
  have d3: "determine_action ''Let's schedule a meeting for Tuesday''
       = Inr [''action'' \<mapsto> ''schedule_meeting'',
              ''details'' \<mapsto> ''Let's schedule a meeting for Tuesday'']"
    using determine_action_first_match[of "''Let's schedule a meeting for Tuesday''"] h3 by blast
  have h4: "\<not> py_in marker (lower ''schedule a call'')
            \<and> \<not> py_in ''save this information'' (lower ''schedule a call'')
            \<and> \<not> (py_in ''schedule'' (lower ''schedule a call'')
                  \<and> py_in ''meeting'' (lower ''schedule a call''))"
    by (simp add: marker_def lower_eval)
  have d4: "determine_action ''schedule a call'' = Inr [''action'' \<mapsto> ''none'']"
    using determine_action_first_match[of "''schedule a call''"] h4 by blast
  from h1 d1 d2 d3 d4 show ?thesis by (intro conjI)
qed

text \<open>
  The claim as worded fails: the query is not a part of the summary itself. For the
  summary \<open>search the web for Cats\<close> the text after the marker, trimmed, is \<open>Cats\<close>,
  and the code answers \<open>cats\<close>.
\<close>

theorem determine_action_payload_counterexample:
  "determine_action ''search the web for Cats''
     = Inr [''action'' \<mapsto> ''web_search'', ''query'' \<mapsto> ''cats'']
   \<and> spec_web_search_payload ''search the web for Cats'' = ''Cats''
   \<and> determine_action ''search the web for Cats''
     \<noteq> Inr [''action'' \<mapsto> ''web_search'',
            ''query'' \<mapsto> spec_web_search_payload ''search the web for Cats'']"
proof -
  have a: "determine_action ''search the web for Cats''
     = Inr [''action'' \<mapsto> ''web_search'', ''query'' \<mapsto> ''cats'']"
    by (simp add: eval_defs)
  have b: "spec_web_search_payload ''search the web for Cats'' = ''Cats''"
    by (simp add: spec_web_search_payload_def marker_def lower_eval
        strip_def is_space_bits)
  have c: "[''action'' \<mapsto> ''web_search'', ''query'' \<mapsto> ''cats'']
        \<noteq> [''action'' \<mapsto> ''web_search'', ''query'' \<mapsto> ''Cats'']"
  proof
    assume "[''action'' \<mapsto> ''web_search'', ''query'' \<mapsto> ''cats'']
          = [''action'' \<mapsto> ''web_search'', ''query'' \<mapsto> ''Cats'']"
    then have "Some ''cats'' = Some ''Cats''" by (rule map_upd_eqD1[THEN arg_cong[where f = Some]])
    then show False by simp
  qed
  from a b c show ?thesis by simp
qed

section \<open>The history store\<close>

text \<open>
  For every \<open>max_history_turns\<close> of at least 1 and every store that starts empty, after
  any sequence of \<open>add_message\<close> calls the stored sequence (\<open>get_full_history\<close>) has
  at most \<open>max_history_turns\<close> entries, and they are the most recently appended ones in
  their original order.
\<close>

lemma history_bounded:
  "1 \<le> max_history_turns cm \<Longrightarrow> conversation_history cm = [] \<Longrightarrow>
   int (length (get_full_history (add_messages ms cm))) \<le> max_history_turns cm
   \<and> get_full_history (add_messages ms cm)
       = drop (length ms - nat (max_history_turns cm))
           (map (\<lambda>(r, c). \<lparr>role = JStr r, content = c, others = []\<rparr>) ms)"
proof -
  assume n: "1 \<le> max_history_turns cm" and e: "conversation_history cm = []"
  have ne: "new_entry = (\<lambda>(r, c). \<lparr>role = JStr r, content = c, others = []\<rparr>)"
    by (auto simp: new_entry_def fun_eq_iff)
  have h: "conversation_history (add_messages ms cm)
             = last_n (nat (max_history_turns cm)) (map new_entry ms)"
    using add_messages_history[of cm ms] n e by simp
  have "length (conversation_history (add_messages ms cm)) \<le> nat (max_history_turns cm)"
    by (simp add: h length_last_n)
  with n have "int (length (get_full_history (add_messages ms cm))) \<le> max_history_turns cm"
    by (simp add: get_full_history_def)
  moreover have "get_full_history (add_messages ms cm)
       = drop (length ms - nat (max_history_turns cm)) (map new_entry ms)"
    by (simp add: get_full_history_def h last_n_def)
  ultimately show ?thesis by (simp add: ne)
qed

lemma history_bounded_example:
  "int (length (get_full_history
          (add_messages [(''user'', JStr ''a''), (''model'', JStr ''b''), (''user'', JStr ''c'')]
             (init_context_manager Absent True 2)))) \<le> 2
   \<and> get_full_history
          (add_messages [(''user'', JStr ''a''), (''model'', JStr ''b''), (''user'', JStr ''c'')]
             (init_context_manager Absent True 2))
       = [\<lparr>role = JStr ''model'', content = JStr ''b'', others = []\<rparr>,
          \<lparr>role = JStr ''user'', content = JStr ''c'', others = []\<rparr>]"
proof -
  have a: "1 \<le> max_history_turns (init_context_manager Absent True 2)"
    by (simp add: init_context_manager_def)
  have b: "conversation_history (init_context_manager Absent True 2) = []"
    by (simp add: init_context_manager_def load_history_def)
  show ?thesis
    using history_bounded[OF a b,
      of "[(''user'', JStr ''a''), (''model'', JStr ''b''), (''user'', JStr ''c'')]"]
    by (simp add: init_context_manager_def)
qed

text \<open>
  C8 (the code does not keep the bound 0). With \<open>max_history_turns = 0\<close> the trimming
  slice of \<open>add_message\<close> is \<open>conversation_history[-0:]\<close>, which is the whole list:
  nothing is ever dropped, and a store that starts empty holds two entries after two
  appends, more than the maximum of 0 that its own documentation names.
\<close>

theorem history_unbounded_at_zero:
  "max_history_turns (init_context_manager Absent True 0) = 0
   \<and> get_full_history (init_context_manager Absent True 0) = []
   \<and> get_full_history
         (add_messages [(''user'', JStr ''hi''), (''model'', JStr ''hello'')]
            (init_context_manager Absent True 0))
       = [\<lparr>role = JStr ''user'', content = JStr ''hi'', others = []\<rparr>,
          \<lparr>role = JStr ''model'', content = JStr ''hello'', others = []\<rparr>]
   \<and> length (get_full_history
         (add_messages [(''user'', JStr ''hi''), (''model'', JStr ''hello'')]
            (init_context_manager Absent True 0))) = 2"
  by (simp add: init_context_manager_def load_history_def add_message_def save_history_def
      slice_from_def get_full_history_def)

text \<open>
  C10. Loading never trims: when the history file holds a well-formed list of
  role/content dictionaries that is longer than \<open>max_history_turns\<close>, the store starts
  with every one of them, so \<open>get_full_history\<close> returns more than
  \<open>max_history_turns\<close> entries; the next \<open>add_message\<close> trims (for a bound of at
  least 1, to exactly the bound).
\<close>

theorem load_history_never_trims:
  "list_all (\<lambda>item. entry_of_json item \<noteq> None) items \<Longrightarrow>
   n < int (length items) \<Longrightarrow>
   map Some (get_full_history (init_context_manager (Holds (JList items)) writable n))
     = map entry_of_json items
   \<and> length (get_full_history (init_context_manager (Holds (JList items)) writable n))
     = length items
   \<and> max_history_turns (init_context_manager (Holds (JList items)) writable n)
     < int (length (get_full_history (init_context_manager (Holds (JList items)) writable n)))
   \<and> (1 \<le> n \<longrightarrow>
        int (length (get_full_history
               (add_message r c (init_context_manager (Holds (JList items)) writable n)))) = n)"
proof -
  assume wf: "list_all (\<lambda>item. entry_of_json item \<noteq> None) items"
     and big: "n < int (length items)"
  let ?cm = "init_context_manager (Holds (JList items)) writable n"
  have h: "conversation_history ?cm = List.map_filter entry_of_json items"
    using wf by (simp add: init_context_manager_def load_history_def)
  have m: "max_history_turns ?cm = n" by (simp add: init_context_manager_def)
  have eq: "map Some (get_full_history ?cm) = map entry_of_json items"
    using entry_of_json_all[OF wf] by (simp add: get_full_history_def h)
  then have "length (map Some (get_full_history ?cm)) = length (map entry_of_json items)"
    by (rule arg_cong)
  then have len: "length (get_full_history ?cm) = length items" by simp
  have trim: "int (length (get_full_history (add_message r c ?cm))) = n" if "1 \<le> n"
    using that big len
    by (simp add: get_full_history_def add_message_history m length_last_n)
  from eq len big m trim show ?thesis by simp
qed

theorem load_history_never_trims_witness:
  "length (get_full_history (init_context_manager (Holds (JList
      [JObj [(''role'', JStr ''user''), (''content'', JStr ''a'')],
       JObj [(''role'', JStr ''model''), (''content'', JStr ''b'')],
       JObj [(''content'', JStr ''c''), (''role'', JStr ''user''), (''at'', JNum 7)]]))
      True 2)) = 3
   \<and> int (length (get_full_history (add_message ''user'' (JStr ''d'')
      (init_context_manager (Holds (JList
        [JObj [(''role'', JStr ''user''), (''content'', JStr ''a'')],
         JObj [(''role'', JStr ''model''), (''content'', JStr ''b'')],
         JObj [(''content'', JStr ''c''), (''role'', JStr ''user''), (''at'', JNum 7)]]))
        True 2)))) = 2"
  using load_history_never_trims[of
      "[JObj [(''role'', JStr ''user''), (''content'', JStr ''a'')],
        JObj [(''role'', JStr ''model''), (''content'', JStr ''b'')],
        JObj [(''content'', JStr ''c''), (''role'', JStr ''user''), (''at'', JNum 7)]]"
      2 True "''user''" "JStr ''d''"]
  by (simp add: entry_of_json_def entry_of_dict_def)

section \<open>Substring matching in the web-search check\<close>

text \<open>
  C9. The destructive-query test of \<open>validate_action\<close> is substring containment on the
  lower-cased payload: every \<open>web_search\<close> request whose query contains \<open>format\<close> or
  \<open>delete\<close> anywhere, also inside a longer word such as \<open>information\<close>, is invalid.
  So a summary in which the marker is followed by the word \<open>information\<close> is answered
  with a blocked-action notice and the state is unchanged: nothing is executed.
\<close>

theorem destructive_substring_blocks:
  "(action_data ''action'' = Some ''web_search'' \<and> action_data ''query'' = Some q
      \<and> (py_in ''format'' (lower q) \<or> py_in ''delete'' (lower q)
          \<or> py_in ''information'' (lower q))
      \<longrightarrow> (\<exists>msg. validate_action action_data = Inr (False, msg)))
   \<and> (lower s = pre @ marker @ mid @ ''information'' @ post
      \<longrightarrow> (\<exists>msg. action_step s w = (Inr (''[ACTION BLOCKED]: '' @ msg), w)))"
proof (intro conjI impI)
  assume a: "action_data ''action'' = Some ''web_search'' \<and> action_data ''query'' = Some q
      \<and> (py_in ''format'' (lower q) \<or> py_in ''delete'' (lower q)
          \<or> py_in ''information'' (lower q))"
  then have "py_in ''format'' (lower q) \<or> py_in ''delete'' (lower q)"
    using information_has_format by blast
  with a web_search_destructive[of action_data q]
  show "\<exists>msg. validate_action action_data = Inr (False, msg)" by auto
next
  assume s: "lower s = pre @ marker @ mid @ ''information'' @ post"
  then have m: "py_in marker (lower s)" unfolding py_in_iff by blast
  from split_once_found[OF m] obtain p r
    where ff: "find_first marker (lower s) = Some (p, r)"
      and sp: "split_once marker (lower s) = [p, r]" by blast
  have "py_in ''information'' r" using after_first_marker[OF ff s] .
  then have "py_in ''information'' (strip r)"
    using py_in_strip[of "CHR ''i''" "''nformatio''" "CHR ''n''" r] by (simp add: is_space_bits)
  then have inf: "py_in ''information'' (lower (strip r))"
    by (rule py_in_lower) (simp add: lower_eval)
  let ?ad = "[''action'' \<mapsto> ''web_search'', ''query'' \<mapsto> strip r]"
  have da: "determine_action s = Inr ?ad"
    using m sp by (simp add: determine_action_def)
  from inf have "py_in ''format'' (lower (strip r)) \<or> py_in ''delete'' (lower (strip r))"
    using information_has_format by blast
  with web_search_destructive[of ?ad "strip r"]
  obtain msg where "validate_action ?ad = Inr (False, msg)" by auto
  then show "\<exists>msg. action_step s w = (Inr (''[ACTION BLOCKED]: '' @ msg), w)"
    by (simp add: action_step_def da)
qed

theorem destructive_substring_blocks_witness:
  "(\<exists>msg. validate_action [''action'' \<mapsto> ''web_search'', ''query'' \<mapsto> ''Weather Information'']
            = Inr (False, msg))
   \<and> validate_action [''action'' \<mapsto> ''web_search'', ''query'' \<mapsto> ''Weather Information'']
       = Inr (False, ''Cannot perform web search for potentially destructive actions.'')
   \<and> (\<exists>msg. action_step ''Search the web for information about cats'' (start_world Absent True)
            = (Inr (''[ACTION BLOCKED]: '' @ msg), start_world Absent True))
   \<and> exec_log (snd (action_step ''Search the web for information about cats''
                      (start_world Absent True))) = []"
proof -
  let ?ad = "[''action'' \<mapsto> ''web_search'', ''query'' \<mapsto> ''Weather Information'']"
  let ?s = "''Search the web for information about cats''"
  let ?w = "start_world Absent True"
  note inst = destructive_substring_blocks[of ?ad "''Weather Information''" ?s "[]" "'' ''"
      "'' about cats''" ?w]
  have h1: "?ad ''action'' = Some ''web_search'' \<and> ?ad ''query'' = Some ''Weather Information''
      \<and> (py_in ''format'' (lower ''Weather Information'')
          \<or> py_in ''delete'' (lower ''Weather Information'')
          \<or> py_in ''information'' (lower ''Weather Information''))"
    by (simp add: lower_eval)
  have a: "\<exists>msg. validate_action ?ad = Inr (False, msg)"
    using inst h1 by blast
  have b: "validate_action ?ad
       = Inr (False, ''Cannot perform web search for potentially destructive actions.'')"
    by (simp add: validate_action_def py_or_def truthy_def guarded_any_def any_in_def
        web_search_keywords_def lower_eval)
  have h2: "lower ?s = [] @ marker @ '' '' @ ''information'' @ '' about cats''"
    by (simp add: marker_def lower_eval)
  have c: "\<exists>msg. action_step ?s ?w = (Inr (''[ACTION BLOCKED]: '' @ msg), ?w)"
    using inst h2 by blast
  then have d: "exec_log (snd (action_step ?s ?w)) = []"
    by (auto simp: start_world_def)
  from a b c d show ?thesis by (intro conjI)
qed

section \<open>The guardrail\<close>

text \<open>
  C2 (the code misses a listed phrase). The block list holds the phrase \<open>Hacking\<close> with
  a capital letter, and the input is lower-cased before the test, so this phrase is never
  found: for the input \<open>Hacking\<close>, which contains the listed phrase, \<open>scan_text_input\<close>
  calls the completion service and, when the call succeeds, answers that the input is safe.
\<close>

theorem hacking_not_blocked:
  "py_in ''Hacking'' ''Hacking''
   \<and> fst (scan_text_input (always (Content t)) ''Hacking'' w) = (True, ''Text input is safe.'')
   \<and> api_log (snd (scan_text_input (always (Content t)) ''Hacking'' w))
       = api_log w @ [\<lparr>model_name = TEXT_MODEL,
                        contents = [Role_text (JStr ''user'') ''Hacking''],
                        safety_settings = Some default_safety_settings,
                        kwargs = scan_config\<rparr>]"
  by (simp add: scan_text_input_def malicious_keywords_def generate_text_def
      call_always_content lower_eval)

text \<open>
  C3. For a text input that passes the keyword stage, and for every image input (the
  image scan has no keyword stage), the verdict is unsafe whenever the delegated call
  (\<open>generate_text\<close>, \<open>generate_vision_response\<close>) fails, with any error, and the verdict
  is safe only when that call has returned.
\<close>

theorem guardrail_fails_closed:
  "(find (\<lambda>keyword. py_in keyword (lower text)) malicious_keywords = None \<longrightarrow>
      (\<forall>e. fst (generate_text svc TEXT_MODEL text [] (Some default_safety_settings)
                  scan_config w) = Inl e
           \<longrightarrow> fst (fst (scan_text_input svc text w)) = False)
      \<and> (fst (fst (scan_text_input svc text w)) = True
           \<longrightarrow> (\<exists>t. fst (generate_text svc TEXT_MODEL text [] (Some default_safety_settings)
                          scan_config w) = Inr t)))
   \<and> (\<forall>e. fst (generate_vision_response svc VISION_MODEL image_data
                 (scan_vision_prompt prompt)
                 (Some default_safety_settings) scan_config w) = Inl e
           \<longrightarrow> fst (fst (scan_image_input svc image_data prompt w)) = False)
   \<and> (fst (fst (scan_image_input svc image_data prompt w)) = True
           \<longrightarrow> (\<exists>t. fst (generate_vision_response svc VISION_MODEL image_data
                 (scan_vision_prompt prompt)
                 (Some default_safety_settings) scan_config w) = Inr t))"
proof -
  have tx: "fst (fst (scan_text_input svc text w))
        = (\<exists>t. fst (generate_text svc TEXT_MODEL text [] (Some default_safety_settings)
                          scan_config w) = Inr t)"
    if "find (\<lambda>keyword. py_in keyword (lower text)) malicious_keywords = None"
    using that
    by (cases "generate_text svc TEXT_MODEL text [] (Some default_safety_settings) scan_config w")
       (auto simp: scan_text_input_def split: sum.splits error.splits)
  have img: "fst (fst (scan_image_input svc image_data prompt w))
        = (\<exists>t. fst (generate_vision_response svc VISION_MODEL image_data
                 (scan_vision_prompt prompt)
                 (Some default_safety_settings) scan_config w) = Inr t)"
    by (cases "generate_vision_response svc VISION_MODEL image_data
                 (scan_vision_prompt prompt)
                 (Some default_safety_settings) scan_config w")
       (auto simp: scan_image_input_def Let_def split: sum.splits error.splits)
  show ?thesis
    using tx img by auto
qed

theorem guardrail_fails_closed_witness:
  "find (\<lambda>keyword. py_in keyword (lower ''hello'')) malicious_keywords = None
   \<and> fst (generate_text (always Failed) TEXT_MODEL ''hello'' [] (Some default_safety_settings)
            scan_config (start_world Absent True)) = Inl RetriesExhausted
   \<and> fst (fst (scan_text_input (always Failed) ''hello'' (start_world Absent True))) = False
   \<and> fst (generate_vision_response (always Blocked) VISION_MODEL ''img''
            (scan_vision_prompt ''hello'') (Some default_safety_settings)
            scan_config (start_world Absent True)) = Inl BlockedPromptException
   \<and> fst (fst (scan_image_input (always Blocked) ''img'' ''hello'' (start_world Absent True)))
       = False
   \<and> fst (fst (scan_text_input (always (Content ''x'')) ''hello'' (start_world Absent True)))
       = True
   \<and> fst (fst (scan_image_input (always (Content ''x'')) ''img'' ''hello''
                  (start_world Absent True))) = True"
proof -
  let ?w = "start_world Absent True"
  note inst1 = guardrail_fails_closed[of "''hello''" "always Failed" ?w "''img''" "''hello''"]
  note inst2 = guardrail_fails_closed[of "''hello''" "always Blocked" ?w "''img''" "''hello''"]
  have p: "find (\<lambda>keyword. py_in keyword (lower ''hello'')) malicious_keywords = None"
    by (simp add: malicious_keywords_def lower_eval)
  have f: "fst (generate_text (always Failed) TEXT_MODEL ''hello'' []
            (Some default_safety_settings) scan_config ?w) = Inl RetriesExhausted"
    by (simp add: generate_text_def call_always_failed)
  have b: "fst (generate_vision_response (always Blocked) VISION_MODEL ''img''
            (scan_vision_prompt ''hello'') (Some default_safety_settings)
            scan_config ?w) = Inl BlockedPromptException"
    by (simp add: generate_vision_response_def call_always_blocked)
  have u1: "fst (fst (scan_text_input (always Failed) ''hello'' ?w)) = False"
    using inst1 p f by blast
  have u2: "fst (fst (scan_image_input (always Blocked) ''img'' ''hello'' ?w)) = False"
    using inst2 b by blast
  have s1: "fst (fst (scan_text_input (always (Content ''x'')) ''hello'' ?w)) = True"
    by (simp add: scan_text_input_def p generate_text_def call_always_content)
  have s2: "fst (fst (scan_image_input (always (Content ''x'')) ''img'' ''hello'' ?w)) = True"
    by (simp add: scan_image_input_def generate_vision_response_def call_always_content Let_def)
  from p f u1 b u2 s1 s2 show ?thesis by (intro conjI)
qed

section \<open>The turn\<close>

text \<open>
  C1. In every turn, \<open>execute_action\<close> is called at most once, and only with the action
  dictionary that \<open>determine_action\<close> derived in this turn, for which \<open>validate_action\<close>
  answers valid and whose type is not \<open>none\<close>.
\<close>

theorem execution_only_after_validation:
  "\<exists>new. exec_log (snd (chat e f w)) = exec_log w @ new \<and> length new \<le> 1
     \<and> (\<forall>a\<in>set new. validate_action a = Inr (True, ''Action is valid.'')
            \<and> a ''action'' \<noteq> Some ''none''
            \<and> (\<exists>m w1 context_summary gemini_response w2.
                   guardrail_step e f w = Some ((True, m), w1)
                   \<and> analyze_step e f (get_context_for_llm w) w1
                       = (Inr (context_summary, gemini_response), w2)
                   \<and> determine_action context_summary = Inr a))"
proof (cases "guardrail_step e f w")
  case None
  then show ?thesis by (simp add: chat_def)
next
  case (Some g)
  obtain safe msg w1 where g: "g = ((safe, msg), w1)" by (cases g) auto
  have w1: "exec_log w1 = exec_log w" using guardrail_step_frame[of e f w "(safe, msg)" w1] Some g by simp
  show ?thesis
  proof (cases safe)
    case False
    with Some g w1 show ?thesis by (simp add: chat_def)
  next
    case True
    obtain r2 w2 where an: "analyze_step e f (get_context_for_llm w) w1 = (r2, w2)"
      by (cases "analyze_step e f (get_context_for_llm w) w1")
    have w2: "exec_log w2 = exec_log w"
      using analyze_step_frame[of e f "get_context_for_llm w" w1] an w1 by simp
    show ?thesis
    proof (cases r2)
      case (Inl err)
      with Some g True an w2 show ?thesis by (simp add: chat_def)
    next
      case (Inr sr)
      obtain context_summary gemini_response where sr: "sr = (context_summary, gemini_response)"
        by (cases sr)
      obtain r3 w3 where ac: "action_step context_summary w2 = (r3, w3)"
        by (cases "action_step context_summary w2")
      from action_step_exec[of context_summary w2] ac w2 obtain new
        where new: "exec_log w3 = exec_log w @ new" "length new \<le> 1"
          "\<forall>a\<in>set new. determine_action context_summary = Inr a
            \<and> validate_action a = Inr (True, ''Action is valid.'')
            \<and> a ''action'' \<noteq> Some ''none''"
        by auto
      have fin: "exec_log (snd (chat e f w)) = exec_log w3"
      proof (cases r3)
        case (Inl err)
        with Some g True an Inr sr ac show ?thesis by (simp add: chat_def)
      next
        case (Inr action_message)
        obtain r4 w4 where gr: "generate_response (service e) context_summary
                                   (get_context_for_llm w) w3 = (r4, w4)"
          by (cases "generate_response (service e) context_summary (get_context_for_llm w) w3")
        have w4: "exec_log w4 = exec_log w3"
          using analyze_frame(3)[of "service e" context_summary "get_context_for_llm w" w3] gr
          by simp
        from Some g True an \<open>r2 = Inr sr\<close> sr ac Inr gr w4 show ?thesis
          by (cases r4) (simp_all add: chat_def Let_def)
      qed
      have turn: "guardrail_step e f w = Some ((True, msg), w1)
                   \<and> analyze_step e f (get_context_for_llm w) w1
                       = (Inr (context_summary, gemini_response), w2)"
        using Some g True an Inr sr by simp
      have "\<forall>a\<in>set new. validate_action a = Inr (True, ''Action is valid.'')
            \<and> a ''action'' \<noteq> Some ''none''
            \<and> (\<exists>m w1 context_summary gemini_response w2.
                   guardrail_step e f w = Some ((True, m), w1)
                   \<and> analyze_step e f (get_context_for_llm w) w1
                       = (Inr (context_summary, gemini_response), w2)
                   \<and> determine_action context_summary = Inr a)"
        using new(3) turn by blast
      with new(1,2) fin show ?thesis by (intro exI[of _ new]) simp
    qed
  qed
qed

theorem execution_only_after_validation_witness:
  "exec_log (snd (chat (demo_env (Content ''schedule meeting''))
                    \<lparr>text_input = ''hi'', image_file = None\<rparr> (start_world Absent True)))
     = [[''action'' \<mapsto> ''schedule_meeting'', ''details'' \<mapsto> ''Text analysis: schedule meeting'']]
   \<and> validate_action [''action'' \<mapsto> ''schedule_meeting'',
                       ''details'' \<mapsto> ''Text analysis: schedule meeting'']
       = Inr (True, ''Action is valid.'')"
proof -
  let ?e = "demo_env (Content ''schedule meeting'')"
  let ?f = "\<lparr>text_input = ''hi'', image_file = None\<rparr>"
  let ?w = "start_world Absent True"
  let ?ad = "[''action'' \<mapsto> ''schedule_meeting'',
              ''details'' \<mapsto> ''Text analysis: schedule meeting'']"
  from demo_guardrail[of "''schedule meeting''" ?w] obtain w1
    where g: "guardrail_step ?e ?f ?w = Some ((True, ''Text input is safe.''), w1)"
      and w1: "exec_log w1 = exec_log ?w" by blast
  from demo_analyze[of "''schedule meeting''" "get_context_for_llm ?w" w1] obtain w2
    where a: "analyze_step ?e ?f (get_context_for_llm ?w) w1
                = (Inr (''Text analysis: '' @ ''schedule meeting'',
                        ''[Text Analysis]: '' @ ''schedule meeting''), w2)"
      and w2: "exec_log w2 = exec_log w1" by blast
  have "exec_log (snd (chat ?e ?f ?w))
          = exec_log (snd (action_step (''Text analysis: '' @ ''schedule meeting'') w2))"
    using chat_exec_log[OF g a] .
  also have "\<dots> = exec_log w2 @ [?ad]" using demo_action[of w2] by simp
  also have "\<dots> = [?ad]" by (simp add: w1 w2 start_world_def)
  finally have ex: "exec_log (snd (chat ?e ?f ?w)) = [?ad]" .
  from execution_only_after_validation[of ?e ?f ?w] obtain new
    where n: "exec_log (snd (chat ?e ?f ?w)) = exec_log ?w @ new"
      and v: "\<forall>a\<in>set new. validate_action a = Inr (True, ''Action is valid.'')
            \<and> a ''action'' \<noteq> Some ''none''"
    by blast
  from n ex have "new = [?ad]" by (simp add: start_world_def)
  with v have "validate_action ?ad = Inr (True, ''Action is valid.'')" by simp
  with ex show ?thesis by (intro conjI)
qed

text \<open>
  C7. When the guardrail's verdict is unsafe, the turn is exactly two \<open>add_message\<close>
  calls on the state the guardrail left (the user's text, or the image label when there
  is no text, then a model entry carrying the guardrail message) and the reply
  \<open>System:\<close> followed by the guardrail message, with the resulting history. No call of
  the completion service follows the guardrail's own, and nothing is executed. With room
  for two entries, the history ends with these two.
\<close>

theorem blocked_turn_short_circuits:
  assumes g: "guardrail_step e f w = Some ((False, msg), w1)"
  shows "\<exists>user_entry w2.
           (strip (text_input f) \<noteq> [] \<and> user_entry = strip (text_input f)
            \<or> strip (text_input f) = []
               \<and> (\<exists>u. image_file f = Some u \<and> user_entry = ''[Image: '' @ filename u @ '']''))
         \<and> w2 = add_message ''model'' (JStr (''[Guardrail]: '' @ msg))
                  (add_message ''user'' (JStr user_entry) w1)
         \<and> chat e f w = (Ok_reply (''System: '' @ msg) (get_full_history w2), w2)
         \<and> api_log w2 = api_log w1
         \<and> exec_log w2 = exec_log w
         \<and> (2 \<le> max_history_turns w \<longrightarrow>
              (\<exists>kept. get_full_history w2
                 = kept @ [\<lparr>role = JStr ''user'', content = JStr user_entry, others = []\<rparr>,
                           \<lparr>role = JStr ''model'', content = JStr (''[Guardrail]: '' @ msg),
                            others = []\<rparr>]))"
proof -
  have c: "chat e f w = blocked_turn f msg w1" using g by (simp add: chat_def)
  define user_entry where "user_entry =
     (if strip (text_input f) \<noteq> [] then strip (text_input f)
      else ''[Image: '' @ filename (the (image_file f)) @ '']'')"
  define w2 where "w2 = add_message ''model'' (JStr (''[Guardrail]: '' @ msg))
                  (add_message ''user'' (JStr user_entry) w1)"
  have inp: "strip (text_input f) \<noteq> [] \<or> (\<exists>u. image_file f = Some u)"
    using guardrail_step_input[OF g] .
  have ue: "strip (text_input f) \<noteq> [] \<and> user_entry = strip (text_input f)
            \<or> strip (text_input f) = []
               \<and> (\<exists>u. image_file f = Some u \<and> user_entry = ''[Image: '' @ filename u @ '']'')"
    using inp by (auto simp: user_entry_def)
  have b: "blocked_turn f msg w1 = (Ok_reply (''System: '' @ msg) (get_full_history w2), w2)"
    using inp by (auto simp: blocked_turn_def Let_def user_entry_def w2_def)
  have api: "api_log w2 = api_log w1" by (simp add: w2_def)
  have ex: "exec_log w2 = exec_log w" using guardrail_step_frame[OF g] by (simp add: w2_def)
  have two: "\<exists>kept. get_full_history w2
                 = kept @ [\<lparr>role = JStr ''user'', content = JStr user_entry, others = []\<rparr>,
                           \<lparr>role = JStr ''model'', content = JStr (''[Guardrail]: '' @ msg),
                            others = []\<rparr>]"
    if "2 \<le> max_history_turns w"
  proof -
    from that have "2 \<le> max_history_turns w1" using guardrail_step_max[OF g] by simp
    from add_message_twice[OF this, of "''model''" "JStr (''[Guardrail]: '' @ msg)"
        "''user''" "JStr user_entry"]
    show ?thesis by (simp add: get_full_history_def w2_def new_entry_def)
  qed
  from ue b c api ex two show ?thesis
    by (intro exI[of _ user_entry] exI[of _ w2]) (simp add: w2_def)
qed

theorem blocked_turn_short_circuits_witness:
  "fst (chat (demo_env Failed) \<lparr>text_input = '' format hard drive'', image_file = None\<rparr>
          (start_world Absent True))
     = Ok_reply (''System: '' @ blocked_message)
         [\<lparr>role = JStr ''user'', content = JStr ''format hard drive'', others = []\<rparr>,
          \<lparr>role = JStr ''model'', content = JStr (''[Guardrail]: '' @ blocked_message),
           others = []\<rparr>]
   \<and> api_log (snd (chat (demo_env Failed)
                  \<lparr>text_input = '' format hard drive'', image_file = None\<rparr>
                  (start_world Absent True))) = []
   \<and> exec_log (snd (chat (demo_env Failed)
                  \<lparr>text_input = '' format hard drive'', image_file = None\<rparr>
                  (start_world Absent True))) = []"
proof -
  let ?f = "\<lparr>text_input = '' format hard drive'', image_file = None\<rparr>"
  let ?w = "start_world Absent True"
  have s: "strip (text_input ?f) = ''format hard drive''"
    by (simp add: strip_def is_space_bits)
  from blocked_turn_short_circuits[OF demo_blocked[of "demo_env Failed" ?w]]
  obtain user_entry w2 where
        u: "strip (text_input ?f) \<noteq> [] \<and> user_entry = strip (text_input ?f)
            \<or> strip (text_input ?f) = []
               \<and> (\<exists>u. image_file ?f = Some u \<and> user_entry = ''[Image: '' @ filename u @ '']'')"
    and w2: "w2 = add_message ''model'' (JStr (''[Guardrail]: '' @ blocked_message))
                  (add_message ''user'' (JStr user_entry) ?w)"
    and c: "chat (demo_env Failed) ?f ?w
              = (Ok_reply (''System: '' @ blocked_message) (get_full_history w2), w2)"
    and api: "api_log w2 = api_log ?w"
    and ex: "exec_log w2 = exec_log ?w"
    by blast
  from u s have ue: "user_entry = ''format hard drive''" by simp
  have h: "get_full_history w2
     = [\<lparr>role = JStr ''user'', content = JStr ''format hard drive'', others = []\<rparr>,
        \<lparr>role = JStr ''model'', content = JStr (''[Guardrail]: '' @ blocked_message),
         others = []\<rparr>]"
    unfolding w2 ue
    by (simp add: get_full_history_def add_message_def save_history_def start_world_def
        load_history_def)
  have "api_log w2 = []" "exec_log w2 = []" using api ex by (simp_all add: start_world_def)
  with c h show ?thesis by simp
qed

end
